theory Spec2Isabelle
  imports Main "HOL-Library.Sublist"
begin

section \<open>The useMovies hook of usepopcorn (src/src/useMovies.js)\<close>

text \<open>
  The hook keeps three pieces of React state (\<open>movies\<close>, \<open>isLoading\<close>, \<open>error\<close>) and
  one effect that depends on \<open>[query]\<close>. The effect either takes the short-query branch or
  starts the asynchronous function \<open>fetchMovies\<close>, which suspends twice: at
  \<open>await fetch(...)\<close> and at \<open>await res.json()\<close>. The model is a state machine: the state
  is a record holding the React state together with everything the hook does to the outside
  (console, network requests, abort controllers), and each event is one uninterrupted run of
  the hook's code on the single JavaScript thread: a render with a query, the settling of a
  fetch promise, or the settling of a body-decoding promise. What the network answers is not
  decided by the hook, so it is the payload of the event.

  Strings are HOL strings, so a query is a sequence of 8-bit characters and \<open>length\<close> is
  JavaScript's \<open>.length\<close> for every query written in that range. The model covers the
  lifetime of one mounted hook; unmounting is not part of it.
\<close>

subsection \<open>JavaScript values\<close>

text \<open>What \<open>res.json()\<close> can produce. The hook never looks into a number, so numbers are
  kept as integers.\<close>

datatype json =
    JNull
  | JBool bool
  | JNum int
  | JStr string
  | JArr "json list"
  | JObj "(string \<times> json) list"

text \<open>A JavaScript value as the hook handles it: \<open>undefined\<close> or a decoded JSON value.\<close>

datatype jsval = Undefined | Val json

text \<open>A thrown value: an error object with its \<open>name\<close> and \<open>message\<close>.\<close>

record js_error =
  name :: string
  message :: string

text \<open>\<open>new Error(msg)\<close>.\<close>

definition new_Error :: "string \<Rightarrow> js_error" where
  "new_Error msg = \<lparr>name = ''Error'', message = msg\<rparr>"

text \<open>Reading a property of \<open>null\<close> throws a TypeError; its message is the engine's
  (V8's wording is used).\<close>

definition null_property_error :: "string \<Rightarrow> js_error" where
  "null_property_error k =
     \<lparr>name = ''TypeError'',
      message = ''Cannot read properties of null (reading '' @ [CHR 0x27] @ k @ [CHR 0x27] @ '')''\<rparr>"

text \<open>
  The property read \<open>data.k\<close> on a decoded JSON value, for a key that is no built-in
  property (as \<open>Response\<close> and \<open>Search\<close> are not): an object gives its own property or
  \<open>undefined\<close>, \<open>null\<close> throws, every other value gives \<open>undefined\<close>. A decoded object has
  each key once; the association list holds its properties.
\<close>

fun get_prop :: "json \<Rightarrow> string \<Rightarrow> js_error + jsval" where
  "get_prop JNull k = Inl (null_property_error k)"
| "get_prop (JObj kvs) k = Inr (case map_of kvs k of None \<Rightarrow> Undefined | Some v \<Rightarrow> Val v)"
| "get_prop _ k = Inr Undefined"

subsection \<open>Numbers in template literals\<close>

definition digit_char :: "nat \<Rightarrow> char" where
  "digit_char d = char_of (48 + d)"

text \<open>\<open>`${n}`\<close> for a non-negative integer: its decimal digits.\<close>

function string_of_nat :: "nat \<Rightarrow> string" where
  "string_of_nat n =
     (if n < 10 then [digit_char n] else string_of_nat (n div 10) @ [digit_char (n mod 10)])"
  by pat_completeness auto
termination
  by (relation "measure (\<lambda>n. n)") auto

declare string_of_nat.simps [simp del]

subsection \<open>The network as the hook sees it\<close>

text \<open>A response: \<open>res.status\<close>. \<open>res.ok\<close> is, by the Fetch standard, that the status is
  in the range 200 to 299.\<close>

record response =
  status :: nat

definition ok :: "response \<Rightarrow> bool" where
  "ok res = (200 \<le> status res \<and> status res \<le> 299)"

datatype fetch_outcome = Resolved response | Rejected js_error

datatype json_outcome = Parsed json | Failed js_error

text \<open>A call of \<open>fetch\<close>: the URL, the method (none is given, so GET) and the abort signal
  passed, named by the number of the attempt that owns the controller.\<close>

record request =
  url :: string
  http_method :: string
  signal :: nat

subsection \<open>The state\<close>

text \<open>Where one run of \<open>fetchMovies\<close> stands: suspended at one of its two awaits, or
  finished, with its promise fulfilled or rejected by an exception that escaped.\<close>

datatype phase = AwaitFetch | AwaitJson | Fulfilled | Escaped js_error

record attempt =
  aborted :: bool
  phase :: phase

record world =
  movies :: jsval
  isLoading :: bool
  error :: string
  console :: "string list"
  requests :: "request list"
  attempts :: "attempt list"
  cleanup :: "nat option"
  deps :: "string option"

text \<open>\<open>useState([])\<close>, \<open>useState(false)\<close>, \<open>useState("")\<close>; nothing has run yet.\<close>

definition init :: world where
  "init = \<lparr>movies = Val (JArr []), isLoading = False, error = '''', console = [],
           requests = [], attempts = [], cleanup = None, deps = None\<rparr>"

definition setMovies :: "jsval \<Rightarrow> world \<Rightarrow> world" where
  "setMovies v w = w\<lparr>movies := v\<rparr>"

definition setIsLoading :: "bool \<Rightarrow> world \<Rightarrow> world" where
  "setIsLoading b w = w\<lparr>isLoading := b\<rparr>"

definition setError :: "string \<Rightarrow> world \<Rightarrow> world" where
  "setError s w = w\<lparr>error := s\<rparr>"

definition console_log :: "string \<Rightarrow> world \<Rightarrow> world" where
  "console_log s w = w\<lparr>console := console w @ [s]\<rparr>"

definition set_phase :: "nat \<Rightarrow> phase \<Rightarrow> world \<Rightarrow> world" where
  "set_phase i p w = w\<lparr>attempts := (attempts w)[i := (attempts w ! i)\<lparr>phase := p\<rparr>]\<rparr>"

definition pending :: "phase \<Rightarrow> bool" where
  "pending p = (p = AwaitFetch \<or> p = AwaitJson)"

subsection \<open>The effect\<close>

definition KEY :: string where
  "KEY = ''b0237cb1''"

text \<open>The template literal of line 22.\<close>

definition search_url :: "string \<Rightarrow> string" where
  "search_url query = ''http://www.omdbapi.com/?apikey='' @ KEY @ ''&&s='' @ query"

text \<open>\<open>controller.abort()\<close> on the controller of attempt \<open>i\<close>.\<close>

definition abort :: "nat \<Rightarrow> world \<Rightarrow> world" where
  "abort i w =
     (if i < length (attempts w)
      then w\<lparr>attempts := (attempts w)[i := (attempts w ! i)\<lparr>aborted := True\<rparr>]\<rparr>
      else w)"

text \<open>The function the previous effect returned, if it returned one.\<close>

definition run_cleanup :: "world \<Rightarrow> world" where
  "run_cleanup w = (case cleanup w of None \<Rightarrow> w | Some i \<Rightarrow> abort i w)"

text \<open>\<open>fetchMovies()\<close> up to its first await: lines 18 to 24. The new attempt gets the next
  free number.\<close>

definition fetchMovies_start :: "string \<Rightarrow> world \<Rightarrow> world" where
  "fetchMovies_start query w =
     (let w1 = setIsLoading True w;
          w2 = setError '''' w1;
          i = length (attempts w2)
      in w2\<lparr>requests := requests w2 @ [\<lparr>url = search_url query, http_method = ''GET'', signal = i\<rparr>],
            attempts := attempts w2 @ [\<lparr>aborted = False, phase = AwaitFetch\<rparr>]\<rparr>)"

text \<open>The body of the effect, lines 12 to 61. The short-query branch returns nothing, so
  no cleanup is registered; the other branch registers the abort of its own controller.\<close>

definition effect :: "string \<Rightarrow> world \<Rightarrow> world" where
  "effect query w =
     (if length query < 3
      then (setError '''' (setMovies (Val (JArr [])) w))\<lparr>cleanup := None\<rparr>
      else (fetchMovies_start query w)\<lparr>cleanup := Some (length (attempts w))\<rparr>)"

text \<open>A render with \<open>query\<close>. With the dependency list \<open>[query]\<close> the effect runs on the
  first render and whenever the query differs from the one of the last run; the previous
  cleanup runs first.\<close>

definition render :: "string \<Rightarrow> world \<Rightarrow> world" where
  "render query w =
     (if deps w = Some query then w
      else (effect query (run_cleanup w))\<lparr>deps := Some query\<rparr>)"

subsection \<open>Resuming fetchMovies\<close>

text \<open>
  \<open>fetchMovies\<close> is an async function, so its body runs in pieces: \<open>fetchMovies_start\<close>
  above, then \<open>fetch_settled\<close> when the promise of \<open>fetch\<close> settles, then \<open>json_settled\<close>
  when the promise of \<open>res.json()\<close> settles. The try, catch and finally clauses are kept
  apart as in the source.
\<close>

definition http_error_message :: "nat \<Rightarrow> string" where
  "http_error_message st =
     ''Something wrong with fetching movies. HTTP error status: '' @ string_of_nat st"

text \<open>
  The try block from the first await to the second (lines 21 to 32). \<open>Inl\<close> is a throw;
  \<open>Inr\<close> is the suspension at \<open>await res.json()\<close>. No state is written in between.
\<close>

definition try_after_fetch :: "fetch_outcome \<Rightarrow> js_error + unit" where
  "try_after_fetch out =
     (case out of
        Rejected e \<Rightarrow> Inl e
      | Resolved res \<Rightarrow>
          if \<not> ok res then Inl (new_Error (http_error_message (status res))) else Inr ())"

text \<open>The try block from the second await to its end (lines 32 to 39). The throws come
  before the first write, so a throw leaves the state as it was.\<close>

definition try_after_json :: "json_outcome \<Rightarrow> world \<Rightarrow> js_error + world" where
  "try_after_json out w =
     (case out of
        Failed e \<Rightarrow> Inl e
      | Parsed data \<Rightarrow>
          (case get_prop data ''Response'' of
             Inl e \<Rightarrow> Inl e
           | Inr r \<Rightarrow>
               if r = Val (JStr ''False'') then Inl (new_Error ''Movie not found!'')
               else (case get_prop data ''Search'' of
                       Inl e \<Rightarrow> Inl e
                     | Inr s \<Rightarrow> Inr (setError '''' (setMovies s w)))))"

text \<open>The catch clause, lines 40 to 44.\<close>

definition catch_clause :: "js_error \<Rightarrow> world \<Rightarrow> js_error + world" where
  "catch_clause e w =
     (if name e \<noteq> ''AbortError''
      then Inr (setError (message e) (console_log (message e) w))
      else Inr w)"

text \<open>The finally clause, lines 45 to 47.\<close>

definition finally_clause :: "world \<Rightarrow> world" where
  "finally_clause w = setIsLoading False w"

text \<open>
  How a try statement ends once its try block has ended: a throw goes to the catch
  clause, the finally clause runs in every case, and a throw of the catch clause is what
  leaves the statement. The result is the final phase of the attempt and the state.
\<close>

definition try_end :: "js_error + world \<Rightarrow> world \<Rightarrow> phase \<times> world" where
  "try_end r w =
     (case (case r of Inl e \<Rightarrow> catch_clause e w | Inr w' \<Rightarrow> Inr w') of
        Inl e' \<Rightarrow> (Escaped e', finally_clause w)
      | Inr w' \<Rightarrow> (Fulfilled, finally_clause w'))"

definition finish :: "nat \<Rightarrow> phase \<times> world \<Rightarrow> world" where
  "finish i pw = set_phase i (fst pw) (snd pw)"

text \<open>The fetch promise of attempt \<open>i\<close> settles. Only an attempt suspended there resumes.\<close>

definition fetch_settled :: "nat \<Rightarrow> fetch_outcome \<Rightarrow> world \<Rightarrow> world" where
  "fetch_settled i out w =
     (if i < length (attempts w) \<and> phase (attempts w ! i) = AwaitFetch
      then (case try_after_fetch out of
              Inl e \<Rightarrow> finish i (try_end (Inl e) w)
            | Inr _ \<Rightarrow> set_phase i AwaitJson w)
      else w)"

text \<open>The promise of \<open>res.json()\<close> of attempt \<open>i\<close> settles.\<close>

definition json_settled :: "nat \<Rightarrow> json_outcome \<Rightarrow> world \<Rightarrow> world" where
  "json_settled i out w =
     (if i < length (attempts w) \<and> phase (attempts w ! i) = AwaitJson
      then finish i (try_end (try_after_json out w) w)
      else w)"

subsection \<open>Events and runs\<close>

datatype event =
    Render string
  | FetchSettled nat fetch_outcome
  | JsonSettled nat json_outcome

fun step :: "event \<Rightarrow> world \<Rightarrow> world" where
  "step (Render q) w = render q w"
| "step (FetchSettled i out) w = fetch_settled i out w"
| "step (JsonSettled i out) w = json_settled i out w"

fun run :: "event list \<Rightarrow> world \<Rightarrow> world" where
  "run [] w = w"
| "run (ev # evs) w = run evs (step ev w)"

text \<open>What the caller gets back: \<open>{movies, isLoading, error}\<close>.\<close>

definition visible :: "world \<Rightarrow> jsval \<times> bool \<times> string" where
  "visible w = (movies w, isLoading w, error w)"

text \<open>
  What the network does with one request, from the request to the end of the attempt:
  the fetch fails, or it answers with a response whose body then decodes or fails.
\<close>

datatype reply = FetchFails js_error | HttpReply response json_outcome

fun events_of :: "nat \<Rightarrow> reply \<Rightarrow> event list" where
  "events_of i (FetchFails e) = [FetchSettled i (Rejected e)]"
| "events_of i (HttpReply res body) = [FetchSettled i (Resolved res), JsonSettled i body]"

text \<open>One whole lookup: the effect runs for \<open>query\<close> (after the previous cleanup) and the
  network answers the request of the attempt it starts, if it starts one, to the attempt's
  end. Events for an attempt that does not exist change nothing.\<close>

definition lookup :: "string \<Rightarrow> reply \<Rightarrow> world \<Rightarrow> world" where
  "lookup query r w = run (events_of (length (attempts w)) r) (effect query (run_cleanup w))"

subsection \<open>Properties of states\<close>

text \<open>\<open>isLoading\<close> is true only while some run of \<open>fetchMovies\<close> has not finished.\<close>

definition loading_only_while_pending :: "world \<Rightarrow> bool" where
  "loading_only_while_pending w =
     (isLoading w \<longrightarrow> (\<exists>a \<in> set (attempts w). pending (phase a)))"

fun escaped :: "phase \<Rightarrow> bool" where
  "escaped (Escaped e) = True"
| "escaped _ = False"

text \<open>No run of \<open>fetchMovies\<close> has ended with an exception that left it.\<close>

definition nothing_escaped :: "world \<Rightarrow> bool" where
  "nothing_escaped w = (\<forall>a \<in> set (attempts w). \<not> escaped (phase a))"

subsection \<open>The URL encoding the specification speaks of\<close>

text \<open>
  The source has no URL encoding. To compare the URL it builds with "the URL-encoded
  form of the query", this is percent-encoding as \<open>encodeURIComponent\<close> does it on 8-bit
  characters: letters, digits and \<open>- _ . ! ~ * ' ( )\<close> stay, every other character
  becomes \<open>%\<close> and two upper-case hexadecimal digits.
\<close>

definition spec_unreserved :: "char \<Rightarrow> bool" where
  "spec_unreserved c =
     (c \<in> set ''ABCDEFGHIJKLMNOPQRSTUVWXYZabcdefghijklmnopqrstuvwxyz0123456789-_.!~*()''
      \<or> c = CHR 0x27)"

definition spec_hex_digit :: "nat \<Rightarrow> char" where
  "spec_hex_digit d = ''0123456789ABCDEF'' ! (d mod 16)"

definition spec_percent_encode :: "char \<Rightarrow> string" where
  "spec_percent_encode c =
     (if spec_unreserved c then [c]
      else [CHR ''%'', spec_hex_digit (of_char c div 16), spec_hex_digit (of_char c mod 16)])"

definition spec_urlencoded :: "string \<Rightarrow> string" where
  "spec_urlencoded s = concat (map spec_percent_encode s)"

subsection \<open>Example inputs\<close>

definition bat_body :: json where
  "bat_body =
     JObj [(''Search'', JArr [JObj [(''Title'', JStr ''Batman''), (''Year'', JStr ''1989'')]]),
           (''totalResults'', JStr ''1''),
           (''Response'', JStr ''True'')]"

definition sup_body :: json where
  "sup_body =
     JObj [(''Search'', JArr [JObj [(''Title'', JStr ''Superman''), (''Year'', JStr ''1978'')]]),
           (''totalResults'', JStr ''1''),
           (''Response'', JStr ''True'')]"

definition not_found_body :: json where
  "not_found_body = JObj [(''Response'', JStr ''False''), (''Error'', JStr ''Movie not found!'')]"

definition abort_error :: js_error where
  "abort_error = \<lparr>name = ''AbortError'', message = ''The user aborted a request.''\<rparr>"

definition network_error :: js_error where
  "network_error = \<lparr>name = ''TypeError'', message = ''Failed to fetch''\<rparr>"

definition bat_pending :: world where
  "bat_pending = run [Render ''bat''] init"

definition syntax_error :: js_error where
  "syntax_error = \<lparr>name = ''SyntaxError'', message = ''Unexpected end of JSON input''\<rparr>"

definition bat_decoding :: world where
  "bat_decoding = run [Render ''bat'', FetchSettled 0 (Resolved \<lparr>status = 200\<rparr>)] init"

subsection \<open>Cancelled attempts\<close>

text \<open>The attempt an event resumes, if any.\<close>

fun target :: "event \<Rightarrow> nat option" where
  "target (Render q) = None"
| "target (FetchSettled i out) = Some i"
| "target (JsonSettled i out) = Some i"

text \<open>An event that delivers a cancellation: the awaited promise rejects with an error
  named \<open>AbortError\<close>, as \<open>fetch\<close> and \<open>res.json()\<close> do once the signal they were given
  is aborted.\<close>

fun cancellation :: "event \<Rightarrow> bool" where
  "cancellation (FetchSettled i (Rejected e)) = (name e = ''AbortError'')"
| "cancellation (JsonSettled i (Failed e)) = (name e = ''AbortError'')"
| "cancellation _ = False"

text \<open>
  Two states that differ at most in where attempt \<open>i\<close> stands and in \<open>isLoading\<close>, the
  first having \<open>isLoading\<close> only if the second has it.
\<close>

definition sim :: "nat \<Rightarrow> world \<Rightarrow> world \<Rightarrow> bool" where
  "sim i w w' =
     (movies w = movies w' \<and> error w = error w' \<and> console w = console w'
      \<and> requests w = requests w' \<and> cleanup w = cleanup w' \<and> deps w = deps w'
      \<and> length (attempts w) = length (attempts w')
      \<and> (\<forall>j < length (attempts w). aborted (attempts w ! j) = aborted (attempts w' ! j))
      \<and> (\<forall>j < length (attempts w). j \<noteq> i \<longrightarrow> phase (attempts w ! j) = phase (attempts w' ! j))
      \<and> (isLoading w \<longrightarrow> isLoading w'))"

section \<open>Auxiliary facts\<close>

lemmas setters = setMovies_def setIsLoading_def setError_def console_log_def set_phase_def

lemmas settle_defs = fetch_settled_def json_settled_def try_after_fetch_def try_end_def
  catch_clause_def finish_def finally_clause_def

lemmas render_defs = render_def effect_def run_cleanup_def abort_def fetchMovies_start_def Let_def

lemma sublist_status_message: "sublist (string_of_nat n) (http_error_message n)"
  unfolding http_error_message_def by (rule suffix_imp_sublist) (simp add: suffix_def)

lemma http_error_message_404: "sublist ''404'' (http_error_message 404)"
  by code_simp

lemma try_after_json_Inr:
  assumes "try_after_json out w = Inr w'"
  obtains s where "w' = setError '''' (setMovies s w)"
  using assms
  by (auto simp add: try_after_json_def split: json_outcome.splits sum.splits if_splits)

text \<open>What a settling event does to an attempt that is waiting for it.\<close>

lemma fetch_settled_throw:
  assumes "i < length (attempts w)" and "phase (attempts w ! i) = AwaitFetch"
    and "try_after_fetch out = Inl e"
  shows "fetch_settled i out w =
           set_phase i Fulfilled (setIsLoading False
             (if name e \<noteq> ''AbortError''
              then setError (message e) (console_log (message e) w) else w))"
  using assms
  by (simp add: fetch_settled_def try_end_def catch_clause_def finish_def finally_clause_def)

lemma fetch_settled_ok:
  assumes "i < length (attempts w)" and "phase (attempts w ! i) = AwaitFetch" and "ok res"
  shows "fetch_settled i (Resolved res) w = set_phase i AwaitJson w"
  using assms by (simp add: fetch_settled_def try_after_fetch_def)

lemma json_settled_throw:
  assumes "i < length (attempts w)" and "phase (attempts w ! i) = AwaitJson"
    and "try_after_json out w = Inl e"
  shows "json_settled i out w =
           set_phase i Fulfilled (setIsLoading False
             (if name e \<noteq> ''AbortError''
              then setError (message e) (console_log (message e) w) else w))"
  using assms
  by (simp add: json_settled_def try_end_def catch_clause_def finish_def finally_clause_def)

lemma json_settled_done:
  assumes "i < length (attempts w)" and "phase (attempts w ! i) = AwaitJson"
    and "try_after_json out w = Inr w'"
  shows "json_settled i out w = set_phase i Fulfilled (setIsLoading False w')"
  using assms by (simp add: json_settled_def try_end_def finish_def finally_clause_def)

lemma awaiting_json:
  assumes "i < length (attempts w)"
  shows "i < length (attempts (set_phase i AwaitJson w))"
    and "phase (attempts (set_phase i AwaitJson w) ! i) = AwaitJson"
  using assms by (simp_all add: set_phase_def)

text \<open>Only the effect calls \<open>fetch\<close>.\<close>

lemma requests_fetch_settled: "requests (fetch_settled i out w) = requests w"
  by (simp add: settle_defs setters split: sum.splits)

lemma requests_json_settled: "requests (json_settled i out w) = requests w"
proof (cases "try_after_json out w")
  case (Inl e)
  then show ?thesis by (simp add: settle_defs setters)
next
  case (Inr w')
  then show ?thesis by (auto elim!: try_after_json_Inr simp add: settle_defs setters)
qed

text \<open>The state in which the first request, for \<open>bat\<close>, is in flight.\<close>

lemma bat_pending_attempt:
  "0 < length (attempts bat_pending)" "phase (attempts bat_pending ! 0) = AwaitFetch"
  by (simp_all add: bat_pending_def init_def render_defs setters)

lemma bat_pending_state:
  "movies bat_pending = Val (JArr [])" "console bat_pending = []"
  by (simp_all add: bat_pending_def init_def render_defs setters)

lemma try_after_json_cases:
  obtains (throws) e where "\<And>w. try_after_json out w = Inl e"
  | (returns) s where "\<And>w. try_after_json out w = Inr (setError '''' (setMovies s w))"
proof (cases out)
  case (Failed e)
  then show ?thesis by (intro throws [of e]) (simp add: try_after_json_def)
next
  case (Parsed data)
  show ?thesis
  proof (cases "get_prop data ''Response''")
    case (Inl e)
    with Parsed show ?thesis by (intro throws [of e]) (simp add: try_after_json_def)
  next
    case r: (Inr r)
    show ?thesis
    proof (cases "r = Val (JStr ''False'')")
      case True
      with Parsed r show ?thesis
        by (intro throws [of "new_Error ''Movie not found!''"]) (simp add: try_after_json_def)
    next
      case False
      show ?thesis
      proof (cases "get_prop data ''Search''")
        case (Inl e)
        with Parsed r False show ?thesis
          by (intro throws [of e]) (simp add: try_after_json_def)
      next
        case (Inr s)
        with Parsed r False show ?thesis
          by (intro returns [of s]) (simp add: try_after_json_def)
      qed
    qed
  qed
qed

lemma nth_update_at:
  "(xs[j := y]) ! k = (if k = j \<and> j < length xs then y else xs ! k)"
  by (cases "j < length xs") (auto simp add: nth_list_update list_update_beyond not_less)

lemma settled_sim:
  assumes "sim i w w'" and "j \<noteq> i"
  shows "sim i (set_phase j p (setIsLoading False w)) (set_phase j p (setIsLoading False w'))"
    and "sim i (setError m (console_log m w)) (setError m (console_log m w'))"
    and "sim i (setError m (setMovies s w)) (setError m (setMovies s w'))"
  using assms by (auto simp add: sim_def setters nth_update_at)

lemma sim_applicable:
  assumes "sim i w w'" and "j \<noteq> i"
  shows "(j < length (attempts w) \<and> phase (attempts w ! j) = p)
           = (j < length (attempts w') \<and> phase (attempts w' ! j) = p)"
  using assms by (auto simp add: sim_def)

lemma sim_render:
  assumes "sim i w w'" shows "sim i (render q w) (render q w')"
  using assms
  by (auto simp add: sim_def render_defs setters nth_update_at nth_append split: option.splits)

lemma sim_fetch_settled:
  assumes "sim i w w'" and "j \<noteq> i"
  shows "sim i (fetch_settled j out w) (fetch_settled j out w')"
  using assms
  by (auto simp add: sim_def settle_defs setters nth_update_at split: sum.splits)

lemma sim_json_settled:
  assumes "sim i w w'" and "j \<noteq> i"
  shows "sim i (json_settled j out w) (json_settled j out w')"
proof (cases "j < length (attempts w) \<and> phase (attempts w ! j) = AwaitJson")
  case False
  with sim_applicable [OF assms, of AwaitJson]
  have "json_settled j out w = w" "json_settled j out w' = w'"
    by (auto simp add: json_settled_def)
  with assms(1) show ?thesis by simp
next
  case True
  with sim_applicable [OF assms, of AwaitJson]
  have a: "j < length (attempts w)" "phase (attempts w ! j) = AwaitJson"
    and a': "j < length (attempts w')" "phase (attempts w' ! j) = AwaitJson"
    by simp_all
  show ?thesis
  proof (cases out rule: try_after_json_cases)
    case (throws e)
    show ?thesis
      unfolding json_settled_throw [OF a throws] json_settled_throw [OF a' throws]
      using settled_sim [OF assms] settled_sim(1) [OF settled_sim(2) [OF assms] assms(2)]
      by simp
  next
    case (returns s)
    show ?thesis
      unfolding json_settled_done [OF a returns] json_settled_done [OF a' returns]
      using settled_sim(1) [OF settled_sim(3) [OF assms] assms(2)] by simp
  qed
qed

lemma sim_step:
  assumes "sim i w w'" and "target ev \<noteq> Some i"
  shows "sim i (step ev w) (step ev w')"
  using assms by (cases ev) (simp_all add: sim_render sim_fetch_settled sim_json_settled)

lemma sim_cancel:
  assumes "sim i w w'" and "target ev = Some i" and "cancellation ev"
  shows "sim i (step ev w) w'"
proof (cases ev)
  case (Render q)
  with assms show ?thesis by simp
next
  case (FetchSettled j out)
  with assms obtain e where "out = Rejected e" "name e = ''AbortError''" "j = i"
    by (cases out) auto
  with assms(1) FetchSettled show ?thesis
    by (auto simp add: sim_def settle_defs setters nth_update_at)
next
  case (JsonSettled j out)
  with assms obtain e where "out = Failed e" "name e = ''AbortError''" "j = i"
    by (cases out) auto
  with assms(1) JsonSettled show ?thesis
    by (auto simp add: sim_def settle_defs setters try_after_json_def nth_update_at)
qed

lemma sim_run:
  assumes "sim i w w'" and "\<forall>ev \<in> set evs. target ev = Some i \<longrightarrow> cancellation ev"
  shows "sim i (run evs w) (run (filter (\<lambda>ev. target ev \<noteq> Some i) evs) w')"
  using assms
proof (induction evs arbitrary: w w')
  case Nil
  then show ?case by simp
next
  case (Cons ev evs)
  show ?case
  proof (cases "target ev = Some i")
    case True
    with Cons.prems have "sim i (step ev w) w'" by (simp add: sim_cancel)
    with Cons.IH [of "step ev w" w'] Cons.prems(2) True show ?thesis by simp
  next
    case False
    with Cons.prems have "sim i (step ev w) (step ev w')" by (simp add: sim_step)
    with Cons.IH [of "step ev w" "step ev w'"] Cons.prems(2) False show ?thesis by simp
  qed
qed

lemma sim_refl: "sim i w w"
  by (simp add: sim_def)

lemma cancellation_changes_nothing_shown:
  assumes "cancellation ev"
  shows "movies (step ev w) = movies w" "error (step ev w) = error w"
    "console (step ev w) = console w"
  using sim_cancel [OF sim_refl, of ev _ w] assms
  by (cases ev; simp add: sim_def)+

lemma nothing_escaped_nth:
  "nothing_escaped w = (\<forall>j < length (attempts w). \<not> escaped (phase (attempts w ! j)))"
  by (simp add: nothing_escaped_def all_set_conv_all_nth)

lemma loading_nth:
  "loading_only_while_pending w
     = (isLoading w \<longrightarrow> (\<exists>j < length (attempts w). pending (phase (attempts w ! j))))"
  unfolding loading_only_while_pending_def by (metis in_set_conv_nth)

lemma pending_kept_render:
  assumes "j < length (attempts w)"
  shows "j < length (attempts (render q w))"
    and "phase (attempts (render q w) ! j) = phase (attempts w ! j)"
  using assms
  by (auto simp add: render_defs setters nth_update_at nth_append split: option.splits)

lemma render_phases:
  assumes "j < length (attempts (render q w))"
  shows "j < length (attempts w) \<or> phase (attempts (render q w) ! j) = AwaitFetch"
  using assms
  by (auto simp add: render_defs setters nth_update_at nth_append split: option.splits if_splits)

lemma nothing_escaped_step:
  assumes "nothing_escaped w" shows "nothing_escaped (step ev w)"
proof (cases ev)
  case (Render q)
  show ?thesis
    unfolding nothing_escaped_nth
  proof (intro allI impI)
    fix j assume j: "j < length (attempts (step ev w))"
    with Render render_phases [of j q w]
    consider "j < length (attempts w)" | "phase (attempts (render q w) ! j) = AwaitFetch"
      by auto
    then show "\<not> escaped (phase (attempts (step ev w) ! j))"
    proof cases
      case 1
      with assms pending_kept_render(2) [OF 1, of q] Render show ?thesis
        by (simp add: nothing_escaped_nth)
    next
      case 2
      with Render show ?thesis by simp
    qed
  qed
next
  case (FetchSettled i out)
  with assms show ?thesis
    by (auto simp add: nothing_escaped_nth settle_defs setters nth_update_at
          split: sum.splits if_splits)
next
  case (JsonSettled i out)
  show ?thesis
  proof (cases out rule: try_after_json_cases)
    case (throws e)
    with assms JsonSettled show ?thesis
      by (auto simp add: nothing_escaped_nth settle_defs setters nth_update_at split: if_splits)
  next
    case (returns s)
    with assms JsonSettled show ?thesis
      by (auto simp add: nothing_escaped_nth settle_defs setters nth_update_at split: if_splits)
  qed
qed

lemma nothing_escaped_run:
  assumes "nothing_escaped w" shows "nothing_escaped (run evs w)"
  using assms by (induction evs arbitrary: w) (simp_all add: nothing_escaped_step)

lemma nothing_escaped_init: "nothing_escaped init"
  by (simp add: nothing_escaped_def init_def)


lemma loading_step:
  assumes "loading_only_while_pending w"
  shows "loading_only_while_pending (step ev w)"
proof (cases ev)
  case (Render q)
  show ?thesis
  proof (cases "deps w = Some q \<or> length q < 3")
    case True
    then have l: "isLoading (render q w) = isLoading w"
      by (auto simp add: render_defs setters split: option.splits)
    show ?thesis
      unfolding loading_nth
    proof
      assume "isLoading (step ev w)"
      with l Render assms obtain j where "j < length (attempts w)"
        "pending (phase (attempts w ! j))"
        by (auto simp add: loading_nth)
      with pending_kept_render [of j w q] Render
      show "\<exists>j < length (attempts (step ev w)). pending (phase (attempts (step ev w) ! j))"
        by auto
    qed
  next
    case False
    then have "attempts (render q w) \<noteq> []"
      and "pending (phase (last (attempts (render q w))))"
      by (auto simp add: render_defs setters pending_def split: option.splits)
    then have "\<exists>a \<in> set (attempts (render q w)). pending (phase a)"
      using last_in_set by blast
    with Render show ?thesis
      by (simp add: loading_only_while_pending_def)
  qed
next
  case (FetchSettled i out)
  with assms show ?thesis
    by (auto simp add: loading_nth settle_defs setters nth_update_at pending_def
          split: sum.splits if_splits)
next
  case (JsonSettled i out)
  show ?thesis
  proof (cases out rule: try_after_json_cases)
    case (throws e)
    with assms JsonSettled show ?thesis
      by (auto simp add: loading_nth settle_defs setters)
  next
    case (returns s)
    with assms JsonSettled show ?thesis
      by (auto simp add: loading_nth settle_defs setters)
  qed
qed

lemma loading_run:
  assumes "loading_only_while_pending w" shows "loading_only_while_pending (run evs w)"
  using assms by (induction evs arbitrary: w) (simp_all add: loading_step)

lemma loading_init: "loading_only_while_pending init"
  by (simp add: loading_only_while_pending_def init_def)

lemma exit_clears_loading:
  assumes "i < length (attempts w)" and "pending (phase (attempts w ! i))"
    and "\<not> pending (phase (attempts (step ev w) ! i))"
  shows "isLoading (step ev w) = False"
proof (cases ev)
  case (Render q)
  with assms pending_kept_render(2) [OF assms(1), of q] show ?thesis by simp
next
  case (FetchSettled j out)
  with assms show ?thesis
    by (auto simp add: settle_defs setters nth_update_at pending_def
          split: sum.splits if_splits)
next
  case (JsonSettled j out)
  show ?thesis
  proof (cases out rule: try_after_json_cases)
    case (throws e)
    with assms JsonSettled show ?thesis
      by (auto simp add: settle_defs setters nth_update_at pending_def split: if_splits)
  next
    case (returns s)
    with assms JsonSettled show ?thesis
      by (auto simp add: settle_defs setters nth_update_at pending_def split: if_splits)
  qed
qed

lemma json_settled_ends:
  assumes "i < length (attempts w)" and "phase (attempts w ! i) = AwaitJson"
  shows "phase (attempts (json_settled i out w) ! i) = Fulfilled"
    and "isLoading (json_settled i out w) = False"
proof -
  show "phase (attempts (json_settled i out w) ! i) = Fulfilled"
    using assms
    by (cases out rule: try_after_json_cases)
       (simp_all add: json_settled_throw json_settled_done setters)
  show "isLoading (json_settled i out w) = False"
    using assms
    by (cases out rule: try_after_json_cases)
       (simp_all add: json_settled_throw json_settled_done setters)
qed

lemma json_settled_fulfilled:
  assumes "i < length (attempts w)"
  shows "json_settled i out (set_phase i Fulfilled w) = set_phase i Fulfilled w"
  using assms by (simp add: json_settled_def set_phase_def)

lemma reply_ends_attempt:
  assumes "i < length (attempts w)" and "phase (attempts w ! i) = AwaitFetch"
  shows "phase (attempts (run (events_of i r) w) ! i) = Fulfilled"
    and "isLoading (run (events_of i r) w) = False"
proof -
  have "phase (attempts (run (events_of i r) w) ! i) = Fulfilled
        \<and> isLoading (run (events_of i r) w) = False"
  proof (cases r)
    case (FetchFails e)
    with assms show ?thesis
      by (simp add: fetch_settled_throw try_after_fetch_def setters)
  next
    case (HttpReply res body)
    show ?thesis
    proof (cases "ok res")
      case True
      with assms HttpReply json_settled_ends [OF awaiting_json [OF assms(1)], of body]
      show ?thesis by (simp add: fetch_settled_ok)
    next
      case False
      then have t: "try_after_fetch (Resolved res) = Inl (new_Error (http_error_message (status res)))"
        by (simp add: try_after_fetch_def)
      from assms HttpReply show ?thesis
        by (simp add: fetch_settled_throw [OF assms t] setters json_settled_def)
    qed
  qed
  then show "phase (attempts (run (events_of i r) w) ! i) = Fulfilled"
    and "isLoading (run (events_of i r) w) = False"
    by simp_all
qed

lemma attempt_start:
  assumes "3 \<le> length q" and "deps w \<noteq> Some q"
  shows "error (step (Render q) w) = ''''" and "isLoading (step (Render q) w)"
    and "phase (last (attempts (step (Render q) w))) = AwaitFetch"
  using assms by (auto simp add: render_defs setters split: option.splits)


lemma effect_starts:
  assumes "3 \<le> length q"
  shows "length (attempts w) < length (attempts (effect q (run_cleanup w)))"
    and "phase (attempts (effect q (run_cleanup w)) ! length (attempts w)) = AwaitFetch"
    and "movies (effect q (run_cleanup w)) = movies w"
    and "error (effect q (run_cleanup w)) = ''''"
  using assms
  by (auto simp add: effect_def run_cleanup_def abort_def fetchMovies_start_def Let_def setters
        nth_append split: option.splits)

lemma effect_short:
  assumes "length q < 3"
  shows "length (attempts (effect q (run_cleanup w))) = length (attempts w)"
    and "visible (effect q (run_cleanup w)) = (Val (JArr []), isLoading w, '''')"
  using assms
  by (auto simp add: effect_def run_cleanup_def abort_def setters visible_def split: option.splits)

lemma events_beyond:
  assumes "length (attempts w) \<le> i"
  shows "run (events_of i r) w = w"
  using assms by (cases r) (simp_all add: fetch_settled_def json_settled_def)

lemma lookup_short:
  assumes "length q < 3"
  shows "visible (lookup q r w) = (Val (JArr []), isLoading w, '''')"
  using effect_short [OF assms, of w] events_beyond [of "effect q (run_cleanup w)" "length (attempts w)" r]
  by (simp add: lookup_def)

lemma lookup_cases:
  assumes "3 \<le> length q"
  obtains (fails) m where "\<And>w. visible (lookup q r w) = (movies w, False, m)"
  | (succeeds) s where "\<And>w. visible (lookup q r w) = (s, False, '''')"
proof -
  have thrown: "visible (run [FetchSettled (length (attempts w)) fo] (effect q (run_cleanup w)))
        = (movies w, False, if name e \<noteq> ''AbortError'' then message e else '''')"
    if "try_after_fetch fo = Inl e" for w fo e
    using fetch_settled_throw [OF effect_starts(1,2) [OF assms, of w] that] effect_starts(3,4) [OF assms, of w]
    by (simp add: visible_def setters)
  show ?thesis
  proof (cases r)
    case (FetchFails e)
    have "visible (lookup q r w) = (movies w, False, if name e \<noteq> ''AbortError'' then message e else '''')" for w
      using thrown [of "Rejected e" e w] FetchFails by (simp add: lookup_def try_after_fetch_def)
    then show ?thesis by (rule fails)
  next
    case (HttpReply res body)
    show ?thesis
    proof (cases "ok res")
      case False
      let ?e = "new_Error (http_error_message (status res))"
      have t: "try_after_fetch (Resolved res) = Inl ?e"
        using False by (simp add: try_after_fetch_def)
      have "visible (lookup q r w) = (movies w, False, message ?e)" for w
      proof -
        let ?w1 = "effect q (run_cleanup w)"
        let ?n = "length (attempts w)"
        have "fetch_settled ?n (Resolved res) ?w1
                = set_phase ?n Fulfilled (setIsLoading False
                    (setError (message ?e) (console_log (message ?e) ?w1)))"
          using fetch_settled_throw [OF effect_starts(1,2) [OF assms, of w] t]
          by (simp add: new_Error_def)
        moreover have "?n < length (attempts (setIsLoading False
                    (setError (message ?e) (console_log (message ?e) ?w1))))"
          using effect_starts(1) [OF assms, of w] by (simp add: setters)
        ultimately have "run (events_of ?n r) ?w1
                = set_phase ?n Fulfilled (setIsLoading False
                    (setError (message ?e) (console_log (message ?e) ?w1)))"
          using HttpReply by (simp add: json_settled_fulfilled)
        then show ?thesis
          using effect_starts(3) [OF assms, of w]
          by (simp add: lookup_def visible_def setters)
      qed
      then show ?thesis by (rule fails)
    next
      case True
      have f: "fetch_settled (length (attempts w)) (Resolved res) (effect q (run_cleanup w))
                 = set_phase (length (attempts w)) AwaitJson (effect q (run_cleanup w))" for w
        using fetch_settled_ok [OF effect_starts(1,2) [OF assms, of w] True] .
      show ?thesis
      proof (cases body rule: try_after_json_cases)
        case (throws e)
        have "visible (lookup q r w)
                = (movies w, False, if name e \<noteq> ''AbortError'' then message e else '''')" for w
          using json_settled_throw [OF awaiting_json [OF effect_starts(1) [OF assms, of w]] throws]
            effect_starts(3,4) [OF assms, of w] HttpReply
          by (simp add: lookup_def f visible_def setters)
        then show ?thesis by (rule fails)
      next
        case (returns s)
        have "visible (lookup q r w) = (s, False, '''')" for w
          using json_settled_done [OF awaiting_json [OF effect_starts(1) [OF assms, of w]] returns]
            HttpReply
          by (simp add: lookup_def f visible_def setters)
        then show ?thesis by (rule succeeds)
      qed
    qed
  qed
qed

text \<open>A query of unreserved characters is its own encoding.\<close>

lemma urlencoded_unreserved:
  assumes "\<forall>c \<in> set s. spec_unreserved c"
  shows "spec_urlencoded s = s"
  using assms by (induction s) (simp_all add: spec_urlencoded_def spec_percent_encode_def)

text \<open>Starting an attempt, and aborting the previous one.\<close>

lemma render_start:
  assumes "3 \<le> length q" and "deps w \<noteq> Some q"
  shows "length (attempts (render q w)) = Suc (length (attempts w))"
    and "phase (attempts (render q w) ! length (attempts w)) = AwaitFetch"
    and "\<not> aborted (attempts (render q w) ! length (attempts w))"
    and "cleanup (render q w) = Some (length (attempts w))"
    and "deps (render q w) = Some q"
    and "signal (last (requests (render q w))) = length (attempts w)"
  using assms
  by (auto simp add: render_defs setters nth_append split: option.splits)

lemma cleanup_aborts:
  assumes "cleanup v = Some k" and "k < length (attempts v)"
  shows "aborted (attempts (run_cleanup v) ! k)"
    and "length (attempts (run_cleanup v)) = length (attempts v)"
    and "requests (run_cleanup v) = requests v"
    and "visible (run_cleanup v) = visible v"
  using assms by (simp_all add: run_cleanup_def abort_def visible_def)

lemma render_runs_cleanup_first:
  assumes "deps v \<noteq> Some q"
  shows "render q v = (effect q (run_cleanup v))\<lparr>deps := Some q\<rparr>"
  using assms by (simp add: render_def)

lemma effect_keeps_aborted:
  assumes "k < length (attempts v)" and "aborted (attempts v ! k)"
  shows "aborted (attempts (effect q v) ! k)"
  using assms
  by (auto simp add: effect_def fetchMovies_start_def Let_def setters nth_append)

lemma render_aborts_previous:
  assumes "cleanup v = Some k" and "k < length (attempts v)" and "deps v \<noteq> Some q"
  shows "aborted (attempts (render q v) ! k)"
proof -
  have "k < length (attempts (run_cleanup v))"
    using cleanup_aborts(2) [OF assms(1,2)] assms(2) by simp
  then have "aborted (attempts (effect q (run_cleanup v)) ! k)"
    using cleanup_aborts(1) [OF assms(1,2)] by (rule effect_keeps_aborted)
  with assms(3) show ?thesis by (simp add: render_def)
qed

lemma cleanup_fetch_settled: "cleanup (fetch_settled i out w) = cleanup w"
  by (simp add: settle_defs setters split: sum.splits)

lemma cleanup_json_settled: "cleanup (json_settled i out w) = cleanup w"
  by (cases out rule: try_after_json_cases) (simp_all add: settle_defs setters)

lemma events_of_target:
  assumes "ev \<in> set (events_of j r)" shows "target ev = Some j"
  using assms by (cases r) auto

lemma supersede_state:
  assumes "3 \<le> length q1" and "3 \<le> length q2" and "q1 \<noteq> q2" and "deps w \<noteq> Some q1"
  shows "aborted (attempts (run [Render q1, Render q2] w) ! length (attempts w))"
    and "Suc (length (attempts w)) < length (attempts (run [Render q1, Render q2] w))"
    and "phase (attempts (run [Render q1, Render q2] w) ! Suc (length (attempts w))) = AwaitFetch"
    and "\<not> aborted (attempts (run [Render q1, Render q2] w) ! Suc (length (attempts w)))"
proof -
  let ?w1 = "render q1 w"
  note s1 = render_start [OF assms(1,4)]
  have d: "deps ?w1 \<noteq> Some q2" using s1(5) assms(3) by simp
  note s2 = render_start [OF assms(2) d]
  show "aborted (attempts (run [Render q1, Render q2] w) ! length (attempts w))"
    using render_aborts_previous [OF s1(4) _ d] s1(1) by simp
  show "Suc (length (attempts w)) < length (attempts (run [Render q1, Render q2] w))"
    using s2(1) s1(1) by simp
  show "phase (attempts (run [Render q1, Render q2] w) ! Suc (length (attempts w))) = AwaitFetch"
    using s2(2) s1(1) by simp
  show "\<not> aborted (attempts (run [Render q1, Render q2] w) ! Suc (length (attempts w)))"
    using s2(3) s1(1) by simp
qed

lemma superseded_scenario:
  assumes "3 \<le> length q1" and "3 \<le> length q2" and "q1 \<noteq> q2" and "deps w \<noteq> Some q1"
    and "name e = ''AbortError''"
    and "events_of (Suc (length (attempts w))) r = pre @ post"
  shows "movies (run (Render q1 # Render q2 # pre @ FetchSettled (length (attempts w)) (Rejected e) # post) w)
           = movies (run (Render q1 # Render q2 # events_of (Suc (length (attempts w))) r) w)"
    and "error (run (Render q1 # Render q2 # pre @ FetchSettled (length (attempts w)) (Rejected e) # post) w)
           = error (run (Render q1 # Render q2 # events_of (Suc (length (attempts w))) r) w)"
    and "console (run (Render q1 # Render q2 # pre @ FetchSettled (length (attempts w)) (Rejected e) # post) w)
           = console (run (Render q1 # Render q2 # events_of (Suc (length (attempts w))) r) w)"
    and "isLoading (run (Render q1 # Render q2 # pre @ FetchSettled (length (attempts w)) (Rejected e) # post) w)
           = False"
    and "isLoading (run (Render q1 # Render q2 # events_of (Suc (length (attempts w))) r) w) = False"
    and "phase (attempts (run (Render q1 # Render q2 # events_of (Suc (length (attempts w))) r) w)
                 ! Suc (length (attempts w))) = Fulfilled"
proof -
  let ?i = "length (attempts w)"
  let ?evs = "Render q1 # Render q2 # pre @ FetchSettled ?i (Rejected e) # post"
  let ?ref = "Render q1 # Render q2 # events_of (Suc ?i) r"
  have t: "target ev = Some (Suc ?i)" if "ev \<in> set pre \<union> set post" for ev
    using that events_of_target [of ev "Suc ?i" r] assms(6) by auto
  have h: "\<forall>ev \<in> set ?evs. target ev = Some ?i \<longrightarrow> cancellation ev"
    using t assms(5) by auto
  have "filter (\<lambda>ev. target ev \<noteq> Some ?i) pre = pre"
    and "filter (\<lambda>ev. target ev \<noteq> Some ?i) post = post"
    using t by (auto simp add: filter_id_conv)
  then have f: "filter (\<lambda>ev. target ev \<noteq> Some ?i) ?evs = ?ref"
    using assms(6) by simp
  have s: "sim ?i (run ?evs w) (run ?ref w)"
    using sim_run [OF sim_refl h, of w] unfolding f .
  have "run ?ref w = run (events_of (Suc ?i) r) (run [Render q1, Render q2] w)"
    by simp
  with reply_ends_attempt [OF supersede_state(2,3) [OF assms(1-4)], of r]
  have e: "phase (attempts (run ?ref w) ! Suc ?i) = Fulfilled" "isLoading (run ?ref w) = False"
    by simp_all
  from s e show "movies (run ?evs w) = movies (run ?ref w)"
    and "error (run ?evs w) = error (run ?ref w)"
    and "console (run ?evs w) = console (run ?ref w)"
    and "isLoading (run ?evs w) = False"
    and "isLoading (run ?ref w) = False"
    and "phase (attempts (run ?ref w) ! Suc ?i) = Fulfilled"
    by (simp_all add: sim_def)
qed

lemma aborted_kept_step:
  assumes "k < length (attempts w)" and "aborted (attempts w ! k)"
  shows "k < length (attempts (step ev w)) \<and> aborted (attempts (step ev w) ! k)"
proof (cases ev)
  case (Render q)
  with assms show ?thesis
    by (auto simp add: render_defs setters nth_update_at nth_append split: option.splits)
next
  case (FetchSettled j out)
  with assms show ?thesis
    by (auto simp add: settle_defs setters nth_update_at split: sum.splits)
next
  case (JsonSettled j out)
  with assms show ?thesis
    by (cases out rule: try_after_json_cases)
       (auto simp add: settle_defs setters nth_update_at)
qed

lemma aborted_kept_run:
  assumes "k < length (attempts w)" and "aborted (attempts w ! k)"
  shows "k < length (attempts (run evs w)) \<and> aborted (attempts (run evs w) ! k)"
  using assms
proof (induction evs arbitrary: w)
  case Nil
  then show ?case by simp
next
  case (Cons ev evs)
  from aborted_kept_step [OF Cons.prems, of ev] Cons.IH [of "step ev w"]
  show ?case by simp
qed

section \<open>The claims\<close>

text \<open>
  C2, as the code has it: when the effect runs for a query of fewer than three characters
  it sets the results to the empty sequence and the error to the empty string, calls
  \<open>fetch\<close> not at all and starts no attempt; it does not write \<open>isLoading\<close>, which keeps
  the value it had. So \<open>isLoading\<close> is false afterwards exactly when it was false before;
  it is false in every state the hook can reach in which no run of \<open>fetchMovies\<close> is
  still waiting.
\<close>

theorem short_query_branch:
  assumes "length q < 3" and "deps w \<noteq> Some q"
  shows "movies (step (Render q) w) = Val (JArr [])
       \<and> error (step (Render q) w) = ''''
       \<and> requests (step (Render q) w) = requests w
       \<and> length (attempts (step (Render q) w)) = length (attempts w)
       \<and> isLoading (step (Render q) w) = isLoading w
       \<and> (w = run evs init \<and> (\<forall>a \<in> set (attempts w). \<not> pending (phase a))
            \<longrightarrow> isLoading (step (Render q) w) = False)"
proof -
  have l: "isLoading (step (Render q) w) = isLoading w"
    using assms
    by (simp add: render_def effect_def run_cleanup_def abort_def setters split: option.splits)
  have "w = run evs init \<and> (\<forall>a \<in> set (attempts w). \<not> pending (phase a))
            \<longrightarrow> isLoading (step (Render q) w) = False"
    using loading_run [OF loading_init, of evs] l
    by (auto simp add: loading_only_while_pending_def)
  with l assms show ?thesis
    by (simp add: render_def effect_def run_cleanup_def abort_def setters split: option.splits)
qed

theorem short_query_branch_witness:
  "length ''ba'' < 3
   \<and> deps (run [Render ''bat'', FetchSettled 0 (Rejected network_error)] init) \<noteq> Some ''ba''
   \<and> movies (step (Render ''ba'') (run [Render ''bat'', FetchSettled 0 (Rejected network_error)] init))
       = Val (JArr [])
   \<and> error (run [Render ''bat'', FetchSettled 0 (Rejected network_error)] init) = ''Failed to fetch''
   \<and> error (step (Render ''ba'') (run [Render ''bat'', FetchSettled 0 (Rejected network_error)] init))
       = ''''
   \<and> length (requests (step (Render ''ba'')
        (run [Render ''bat'', FetchSettled 0 (Rejected network_error)] init))) = 1
   \<and> isLoading (step (Render ''ba'') (run [Render ''bat'', FetchSettled 0 (Rejected network_error)] init))
       = False"
proof -
  let ?w = "run [Render ''bat'', FetchSettled 0 (Rejected network_error)] init"
  have h1: "length ''ba'' < 3" by simp
  have h2: "deps ?w \<noteq> Some ''ba''"
    by (simp add: init_def render_defs settle_defs setters)
  have h3: "\<forall>a \<in> set (attempts ?w). \<not> pending (phase a)"
    by (simp add: init_def render_defs settle_defs setters pending_def)
  have s: "error ?w = ''Failed to fetch''" "length (requests ?w) = 1"
    by (simp_all add: init_def render_defs settle_defs setters network_error_def)
  show ?thesis
    using h1 h2 h3 s
      short_query_branch [OF h1 h2, of "[Render ''bat'', FetchSettled 0 (Rejected network_error)]"]
    by auto
qed

text \<open>
  C2 as stated fails: the query \<open>bat\<close> starts an attempt, which sets \<open>isLoading\<close>; when
  the query becomes \<open>ba\<close> before that attempt has settled, the short-query branch runs
  (results and error are empty, still one request only) and \<open>isLoading\<close> is still true.
\<close>

theorem short_query_isLoading_counterexample:
  "length ''ba'' < 3
   \<and> movies (run [Render ''bat'', Render ''ba''] init) = Val (JArr [])
   \<and> error (run [Render ''bat'', Render ''ba''] init) = ''''
   \<and> length (requests (run [Render ''bat'', Render ''ba''] init)) = 1
   \<and> isLoading (run [Render ''bat'', Render ''ba''] init) = True"
  by (simp add: init_def render_defs setters)

text \<open>
  C3: when the response of an attempt has \<open>ok\<close> status and reading \<open>Response\<close> from the
  decoded body gives a value other than the string \<open>False\<close>, the attempt ends with the
  results equal to what reading \<open>Search\<close> from the body gives (the body's Search array, when
  it has one), the error empty and \<open>isLoading\<close> false.
\<close>

theorem success_publishes_search:
  assumes "i < length (attempts w)" and "phase (attempts w ! i) = AwaitFetch"
    and "ok res"
    and "get_prop data ''Response'' = Inr r" and "r \<noteq> Val (JStr ''False'')"
    and "get_prop data ''Search'' = Inr s"
  shows "movies (run [FetchSettled i (Resolved res), JsonSettled i (Parsed data)] w) = s
       \<and> error (run [FetchSettled i (Resolved res), JsonSettled i (Parsed data)] w) = ''''
       \<and> isLoading (run [FetchSettled i (Resolved res), JsonSettled i (Parsed data)] w) = False"
proof -
  let ?w1 = "set_phase i AwaitJson w"
  have t: "try_after_json (Parsed data) ?w1 = Inr (setError '''' (setMovies s ?w1))"
    using assms(4-6) by (simp add: try_after_json_def)
  have "run [FetchSettled i (Resolved res), JsonSettled i (Parsed data)] w
          = json_settled i (Parsed data) ?w1"
    using assms(1-3) by (simp add: fetch_settled_ok)
  also have "\<dots> = set_phase i Fulfilled (setIsLoading False (setError '''' (setMovies s ?w1)))"
    using awaiting_json [OF assms(1)] t by (rule json_settled_done)
  finally show ?thesis by (simp add: setters)
qed

theorem success_publishes_search_witness:
  "0 < length (attempts bat_pending) \<and> phase (attempts bat_pending ! 0) = AwaitFetch
   \<and> ok \<lparr>status = 200\<rparr>
   \<and> get_prop bat_body ''Response'' = Inr (Val (JStr ''True''))
   \<and> Val (JStr ''True'') \<noteq> Val (JStr ''False'')
   \<and> movies (run [FetchSettled 0 (Resolved \<lparr>status = 200\<rparr>), JsonSettled 0 (Parsed bat_body)]
               bat_pending)
       = Val (JArr [JObj [(''Title'', JStr ''Batman''), (''Year'', JStr ''1989'')]])
   \<and> error (run [FetchSettled 0 (Resolved \<lparr>status = 200\<rparr>), JsonSettled 0 (Parsed bat_body)]
               bat_pending) = ''''
   \<and> isLoading (run [FetchSettled 0 (Resolved \<lparr>status = 200\<rparr>), JsonSettled 0 (Parsed bat_body)]
               bat_pending) = False"
proof -
  have h3: "ok \<lparr>status = 200\<rparr>" by (simp add: ok_def)
  have h4: "get_prop bat_body ''Response'' = Inr (Val (JStr ''True''))"
    by (simp add: bat_body_def)
  have h5: "Val (JStr ''True'') \<noteq> Val (JStr ''False'')" by simp
  have h6: "get_prop bat_body ''Search''
              = Inr (Val (JArr [JObj [(''Title'', JStr ''Batman''), (''Year'', JStr ''1989'')]]))"
    by (simp add: bat_body_def)
  show ?thesis
    using bat_pending_attempt h3 h4 h5
      success_publishes_search [OF bat_pending_attempt h3 h4 h5 h6]
    by simp
qed

text \<open>
  C4: when the response of an attempt has \<open>ok\<close> status and the decoded body's \<open>Response\<close>
  is the string \<open>False\<close>, the attempt ends with the error equal to \<open>Movie not found!\<close>, the
  results as they were before, that message appended to the console, and \<open>isLoading\<close>
  false.
\<close>

theorem not_found_sets_error:
  assumes "i < length (attempts w)" and "phase (attempts w ! i) = AwaitFetch"
    and "ok res"
    and "get_prop data ''Response'' = Inr (Val (JStr ''False''))"
  shows "error (run [FetchSettled i (Resolved res), JsonSettled i (Parsed data)] w)
           = ''Movie not found!''
       \<and> movies (run [FetchSettled i (Resolved res), JsonSettled i (Parsed data)] w) = movies w
       \<and> console (run [FetchSettled i (Resolved res), JsonSettled i (Parsed data)] w)
           = console w @ [''Movie not found!'']
       \<and> isLoading (run [FetchSettled i (Resolved res), JsonSettled i (Parsed data)] w) = False"
proof -
  let ?w1 = "set_phase i AwaitJson w"
  let ?e = "new_Error ''Movie not found!''"
  have t: "try_after_json (Parsed data) ?w1 = Inl ?e"
    using assms(4) by (simp add: try_after_json_def)
  have n: "name ?e \<noteq> ''AbortError''" and m: "message ?e = ''Movie not found!''"
    by (simp_all add: new_Error_def)
  have "run [FetchSettled i (Resolved res), JsonSettled i (Parsed data)] w
          = json_settled i (Parsed data) ?w1"
    using assms(1-3) by (simp add: fetch_settled_ok)
  also have "\<dots> = set_phase i Fulfilled (setIsLoading False
                      (setError (message ?e) (console_log (message ?e) ?w1)))"
    using json_settled_throw [OF awaiting_json [OF assms(1)] t] n by simp
  finally show ?thesis by (simp add: setters m)
qed

theorem not_found_sets_error_witness:
  "0 < length (attempts bat_pending) \<and> phase (attempts bat_pending ! 0) = AwaitFetch
   \<and> ok \<lparr>status = 200\<rparr>
   \<and> get_prop not_found_body ''Response'' = Inr (Val (JStr ''False''))
   \<and> error (run [FetchSettled 0 (Resolved \<lparr>status = 200\<rparr>),
                  JsonSettled 0 (Parsed not_found_body)] bat_pending) = ''Movie not found!''
   \<and> movies (run [FetchSettled 0 (Resolved \<lparr>status = 200\<rparr>),
                   JsonSettled 0 (Parsed not_found_body)] bat_pending) = Val (JArr [])
   \<and> console (run [FetchSettled 0 (Resolved \<lparr>status = 200\<rparr>),
                    JsonSettled 0 (Parsed not_found_body)] bat_pending) = [''Movie not found!'']
   \<and> isLoading (run [FetchSettled 0 (Resolved \<lparr>status = 200\<rparr>),
                      JsonSettled 0 (Parsed not_found_body)] bat_pending) = False"
proof -
  have h3: "ok \<lparr>status = 200\<rparr>" by (simp add: ok_def)
  have h4: "get_prop not_found_body ''Response'' = Inr (Val (JStr ''False''))"
    by (simp add: not_found_body_def)
  show ?thesis
    using bat_pending_attempt h3 h4 bat_pending_state
      not_found_sets_error [OF bat_pending_attempt h3 h4]
    by simp
qed

text \<open>
  C5: when the response of an attempt has a status outside 200 to 299, the try block
  throws an error whose message ends with the decimal digits of the status; the attempt
  ends with that message as the error and \<open>isLoading\<close> false. For status 404 the error
  contains \<open>404\<close>.
\<close>

theorem http_error_status:
  assumes "i < length (attempts w)" and "phase (attempts w ! i) = AwaitFetch"
    and "\<not> ok res"
  shows "try_after_fetch (Resolved res) = Inl (new_Error (http_error_message (status res)))
       \<and> error (step (FetchSettled i (Resolved res)) w) = http_error_message (status res)
       \<and> sublist (string_of_nat (status res)) (error (step (FetchSettled i (Resolved res)) w))
       \<and> isLoading (step (FetchSettled i (Resolved res)) w) = False
       \<and> (status res = 404 \<longrightarrow>
            sublist ''404'' (error (step (FetchSettled i (Resolved res)) w)))"
proof -
  let ?e = "new_Error (http_error_message (status res))"
  have t: "try_after_fetch (Resolved res) = Inl ?e"
    using assms(3) by (simp add: try_after_fetch_def)
  have n: "name ?e \<noteq> ''AbortError''" and m: "message ?e = http_error_message (status res)"
    by (simp_all add: new_Error_def)
  have "step (FetchSettled i (Resolved res)) w
          = set_phase i Fulfilled (setIsLoading False
              (setError (message ?e) (console_log (message ?e) w)))"
    using fetch_settled_throw [OF assms(1,2) t] n by simp
  then have e: "error (step (FetchSettled i (Resolved res)) w) = http_error_message (status res)"
    and l: "isLoading (step (FetchSettled i (Resolved res)) w) = False"
    by (simp_all add: setters m)
  show ?thesis
    using t e l sublist_status_message [of "status res"] http_error_message_404 by auto
qed

theorem http_error_status_witness:
  "0 < length (attempts bat_pending) \<and> phase (attempts bat_pending ! 0) = AwaitFetch
   \<and> \<not> ok \<lparr>status = 404\<rparr> \<and> status \<lparr>status = 404\<rparr> = 404
   \<and> error (step (FetchSettled 0 (Resolved \<lparr>status = 404\<rparr>)) bat_pending)
       = ''Something wrong with fetching movies. HTTP error status: 404''
   \<and> sublist ''404'' (error (step (FetchSettled 0 (Resolved \<lparr>status = 404\<rparr>)) bat_pending))
   \<and> isLoading (step (FetchSettled 0 (Resolved \<lparr>status = 404\<rparr>)) bat_pending) = False"
proof -
  have h3: "\<not> ok \<lparr>status = 404\<rparr>" by (simp add: ok_def)
  have m: "http_error_message 404
             = ''Something wrong with fetching movies. HTTP error status: 404''"
    by code_simp
  have c: "sublist ''404'' ''Something wrong with fetching movies. HTTP error status: 404''"
    using http_error_message_404 unfolding m .
  show ?thesis
    using bat_pending_attempt h3 m c http_error_status [OF bat_pending_attempt h3]
    by simp
qed

text \<open>
  C8, as the code has it: a render whose query has at least three characters and differs
  from the last one calls \<open>fetch\<close> exactly once, with no method given (GET), on the URL
  made of the endpoint, the fixed key and, after \<open>s=\<close>, the query as it was typed: nothing
  encodes it. For a query of letters, digits and the other unreserved characters that is
  also its URL-encoded form. Settling events call \<open>fetch\<close> not at all.
\<close>

theorem request_url_is_raw_query:
  "(3 \<le> length q \<and> deps w \<noteq> Some q \<longrightarrow>
      requests (step (Render q) w) = requests w @
         [\<lparr>url = ''http://www.omdbapi.com/?apikey=b0237cb1&&s='' @ q, http_method = ''GET'',
           signal = length (attempts w)\<rparr>])
   \<and> (3 \<le> length q \<and> deps w \<noteq> Some q \<and> (\<forall>c \<in> set q. spec_unreserved c) \<longrightarrow>
      url (last (requests (step (Render q) w)))
        = ''http://www.omdbapi.com/?apikey=b0237cb1&&s='' @ spec_urlencoded q)
   \<and> requests (step (FetchSettled i fo) w) = requests w
   \<and> requests (step (JsonSettled i jo) w) = requests w"
  by (auto simp add: requests_fetch_settled requests_json_settled render_defs setters
        search_url_def KEY_def urlencoded_unreserved split: option.splits)

theorem request_url_is_raw_query_witness:
  "3 \<le> length ''bat'' \<and> deps init \<noteq> Some ''bat''
   \<and> requests (step (Render ''bat'') init)
       = [\<lparr>url = ''http://www.omdbapi.com/?apikey=b0237cb1&&s=bat'', http_method = ''GET'',
           signal = 0\<rparr>]
   \<and> spec_urlencoded ''bat'' = ''bat''"
proof -
  have u: "\<forall>c \<in> set ''bat''. spec_unreserved c"
    by (simp add: spec_unreserved_def)
  have d: "deps init \<noteq> Some ''bat''" by (simp add: init_def)
  have e: "spec_urlencoded ''bat'' = ''bat''" by code_simp
  show ?thesis
    using u d e request_url_is_raw_query [of "''bat''" init]
    by (simp add: init_def)
qed

text \<open>
  C8 as stated fails: for the query \<open>a&b\<close> the URL requested ends in \<open>s=a&b\<close>, where
  \<open>&\<close> separates parameters; the URL-encoded form of the query, \<open>a%26b\<close>, occurs nowhere
  in it.
\<close>

theorem request_url_encoding_counterexample:
  "url (last (requests (run [Render ''a&b''] init)))
     = ''http://www.omdbapi.com/?apikey=b0237cb1&&s=a&b''
   \<and> spec_urlencoded ''a&b'' = ''a%26b''
   \<and> \<not> sublist (spec_urlencoded ''a&b'') (url (last (requests (run [Render ''a&b''] init))))"
  by code_simp

text \<open>
  C10: when the response of an attempt has \<open>ok\<close> status and the decoded body is an
  object whose \<open>Response\<close> is not the string \<open>False\<close> and which has no \<open>Search\<close> property,
  the attempt ends with the results equal to \<open>undefined\<close>: neither a sequence nor the
  results held before.
\<close>

theorem missing_search_publishes_undefined:
  assumes "i < length (attempts w)" and "phase (attempts w ! i) = AwaitFetch"
    and "ok res"
    and "map_of kvs ''Response'' \<noteq> Some (JStr ''False'')"
    and "map_of kvs ''Search'' = None"
  shows "movies (run [FetchSettled i (Resolved res), JsonSettled i (Parsed (JObj kvs))] w)
           = Undefined"
  using assms
  by (auto simp add: settle_defs setters try_after_json_def split: option.splits sum.splits)

theorem missing_search_publishes_undefined_witness:
  "0 < length (attempts bat_pending) \<and> phase (attempts bat_pending ! 0) = AwaitFetch
   \<and> ok \<lparr>status = 200\<rparr>
   \<and> map_of [(''Response'', JStr ''True'')] ''Response'' \<noteq> Some (JStr ''False'')
   \<and> map_of [(''Response'', JStr ''True'')] ''Search'' = None
   \<and> movies bat_pending = Val (JArr [])
   \<and> movies (run [FetchSettled 0 (Resolved \<lparr>status = 200\<rparr>),
                   JsonSettled 0 (Parsed (JObj [(''Response'', JStr ''True'')]))] bat_pending)
       = Undefined"
proof -
  have h3: "ok \<lparr>status = 200\<rparr>" by (simp add: ok_def)
  have h4: "map_of [(''Response'', JStr ''True'')] ''Response'' \<noteq> Some (JStr ''False'')"
    by simp
  have h5: "map_of [(''Response'', JStr ''True'')] ''Search'' = None" by simp
  show ?thesis
    using bat_pending_attempt h3 h4 h5 bat_pending_state
      missing_search_publishes_undefined [OF bat_pending_attempt h3 h4 h5]
    by simp
qed

text \<open>
  C1, as the code has it: the hook relies on the transport to cancel; nothing checks the
  identity of an attempt. What it does is this. An attempt registers the abort of its own
  controller as the cleanup, and settling events leave the cleanup alone. On the next run
  of the effect the cleanup runs first: the controller of the previous attempt is aborted
  while the newer attempt does not exist yet and no new request has been made, and it stays
  aborted. When every event delivered to an attempt \<open>i\<close> is a cancellation (its awaited
  promise rejects with \<open>AbortError\<close>, which is what an aborted signal makes \<open>fetch\<close> do),
  then in every interleaving with renders and with the events of all other attempts the
  results, the error and the console are what they are when attempt \<open>i\<close> never settles at
  all, and \<open>isLoading\<close> is true only if it is true there. In particular, when the query
  changes from one fetch-triggering value to another while the first request is in flight
  and the first fetch then rejects with \<open>AbortError\<close>, before, between or after the events
  that answer the newer request, the results, the error and the console end as the newer
  attempt alone leaves them and \<open>isLoading\<close> ends false.
\<close>

theorem cancelled_attempt_is_invisible:
  "((\<forall>ev \<in> set evs. target ev = Some i \<longrightarrow> cancellation ev) \<longrightarrow>
       movies (run evs w) = movies (run (filter (\<lambda>ev. target ev \<noteq> Some i) evs) w)
     \<and> error (run evs w) = error (run (filter (\<lambda>ev. target ev \<noteq> Some i) evs) w)
     \<and> console (run evs w) = console (run (filter (\<lambda>ev. target ev \<noteq> Some i) evs) w)
     \<and> (isLoading (run evs w)
          \<longrightarrow> isLoading (run (filter (\<lambda>ev. target ev \<noteq> Some i) evs) w)))
   \<and> (3 \<le> length q \<and> deps v \<noteq> Some q \<longrightarrow>
       cleanup (step (Render q) v) = Some (length (attempts v))
     \<and> signal (last (requests (step (Render q) v))) = length (attempts v)
     \<and> \<not> aborted (attempts (step (Render q) v) ! length (attempts v)))
   \<and> cleanup (step (FetchSettled j fo) v) = cleanup v
   \<and> cleanup (step (JsonSettled j jo) v) = cleanup v
   \<and> (cleanup v = Some k \<and> k < length (attempts v) \<and> deps v \<noteq> Some q' \<longrightarrow>
       step (Render q') v = (effect q' (run_cleanup v))\<lparr>deps := Some q'\<rparr>
     \<and> aborted (attempts (run_cleanup v) ! k)
     \<and> length (attempts (run_cleanup v)) = length (attempts v)
     \<and> requests (run_cleanup v) = requests v
     \<and> aborted (attempts (step (Render q') v) ! k))
   \<and> (3 \<le> length q1 \<and> 3 \<le> length q2 \<and> q1 \<noteq> q2 \<and> deps w \<noteq> Some q1
        \<and> name e = ''AbortError''
        \<and> events_of (Suc (length (attempts w))) r = pre @ post \<longrightarrow>
       aborted (attempts (run [Render q1, Render q2] w) ! length (attempts w))
     \<and> \<not> aborted (attempts (run [Render q1, Render q2] w) ! Suc (length (attempts w)))
     \<and> movies (run (Render q1 # Render q2 # pre
                      @ FetchSettled (length (attempts w)) (Rejected e) # post) w)
         = movies (run (Render q1 # Render q2 # events_of (Suc (length (attempts w))) r) w)
     \<and> error (run (Render q1 # Render q2 # pre
                      @ FetchSettled (length (attempts w)) (Rejected e) # post) w)
         = error (run (Render q1 # Render q2 # events_of (Suc (length (attempts w))) r) w)
     \<and> console (run (Render q1 # Render q2 # pre
                      @ FetchSettled (length (attempts w)) (Rejected e) # post) w)
         = console (run (Render q1 # Render q2 # events_of (Suc (length (attempts w))) r) w)
     \<and> isLoading (run (Render q1 # Render q2 # pre
                      @ FetchSettled (length (attempts w)) (Rejected e) # post) w) = False
     \<and> aborted (attempts (run (Render q1 # Render q2 # pre
                      @ FetchSettled (length (attempts w)) (Rejected e) # post) w)
                  ! length (attempts w))
     \<and> phase (attempts (run (Render q1 # Render q2 # events_of (Suc (length (attempts w))) r) w)
                  ! Suc (length (attempts w))) = Fulfilled)"
proof -
  have a: "(\<forall>ev \<in> set evs. target ev = Some i \<longrightarrow> cancellation ev) \<longrightarrow>
       movies (run evs w) = movies (run (filter (\<lambda>ev. target ev \<noteq> Some i) evs) w)
     \<and> error (run evs w) = error (run (filter (\<lambda>ev. target ev \<noteq> Some i) evs) w)
     \<and> console (run evs w) = console (run (filter (\<lambda>ev. target ev \<noteq> Some i) evs) w)
     \<and> (isLoading (run evs w)
          \<longrightarrow> isLoading (run (filter (\<lambda>ev. target ev \<noteq> Some i) evs) w))"
  proof
    assume h: "\<forall>ev \<in> set evs. target ev = Some i \<longrightarrow> cancellation ev"
    from sim_run [OF sim_refl h, of w]
    show "movies (run evs w) = movies (run (filter (\<lambda>ev. target ev \<noteq> Some i) evs) w)
     \<and> error (run evs w) = error (run (filter (\<lambda>ev. target ev \<noteq> Some i) evs) w)
     \<and> console (run evs w) = console (run (filter (\<lambda>ev. target ev \<noteq> Some i) evs) w)
     \<and> (isLoading (run evs w)
          \<longrightarrow> isLoading (run (filter (\<lambda>ev. target ev \<noteq> Some i) evs) w))"
      by (simp add: sim_def)
  qed
  have b: "3 \<le> length q \<and> deps v \<noteq> Some q \<longrightarrow>
       cleanup (step (Render q) v) = Some (length (attempts v))
     \<and> signal (last (requests (step (Render q) v))) = length (attempts v)
     \<and> \<not> aborted (attempts (step (Render q) v) ! length (attempts v))"
    using render_start(3,4,6) [of q v] by simp
  have c: "cleanup (step (FetchSettled j fo) v) = cleanup v"
    "cleanup (step (JsonSettled j jo) v) = cleanup v"
    by (simp_all add: cleanup_fetch_settled cleanup_json_settled)
  have d: "cleanup v = Some k \<and> k < length (attempts v) \<and> deps v \<noteq> Some q' \<longrightarrow>
       step (Render q') v = (effect q' (run_cleanup v))\<lparr>deps := Some q'\<rparr>
     \<and> aborted (attempts (run_cleanup v) ! k)
     \<and> length (attempts (run_cleanup v)) = length (attempts v)
     \<and> requests (run_cleanup v) = requests v
     \<and> aborted (attempts (step (Render q') v) ! k)"
    using cleanup_aborts(1,2,3) [of v k] render_runs_cleanup_first [of v q']
      render_aborts_previous [of v k q']
    by simp
  have s: "3 \<le> length q1 \<and> 3 \<le> length q2 \<and> q1 \<noteq> q2 \<and> deps w \<noteq> Some q1
        \<and> name e = ''AbortError''
        \<and> events_of (Suc (length (attempts w))) r = pre @ post \<longrightarrow>
       aborted (attempts (run [Render q1, Render q2] w) ! length (attempts w))
     \<and> \<not> aborted (attempts (run [Render q1, Render q2] w) ! Suc (length (attempts w)))
     \<and> movies (run (Render q1 # Render q2 # pre
                      @ FetchSettled (length (attempts w)) (Rejected e) # post) w)
         = movies (run (Render q1 # Render q2 # events_of (Suc (length (attempts w))) r) w)
     \<and> error (run (Render q1 # Render q2 # pre
                      @ FetchSettled (length (attempts w)) (Rejected e) # post) w)
         = error (run (Render q1 # Render q2 # events_of (Suc (length (attempts w))) r) w)
     \<and> console (run (Render q1 # Render q2 # pre
                      @ FetchSettled (length (attempts w)) (Rejected e) # post) w)
         = console (run (Render q1 # Render q2 # events_of (Suc (length (attempts w))) r) w)
     \<and> isLoading (run (Render q1 # Render q2 # pre
                      @ FetchSettled (length (attempts w)) (Rejected e) # post) w) = False
     \<and> aborted (attempts (run (Render q1 # Render q2 # pre
                      @ FetchSettled (length (attempts w)) (Rejected e) # post) w)
                  ! length (attempts w))
     \<and> phase (attempts (run (Render q1 # Render q2 # events_of (Suc (length (attempts w))) r) w)
                  ! Suc (length (attempts w))) = Fulfilled"
  proof
    assume h: "3 \<le> length q1 \<and> 3 \<le> length q2 \<and> q1 \<noteq> q2 \<and> deps w \<noteq> Some q1
        \<and> name e = ''AbortError''
        \<and> events_of (Suc (length (attempts w))) r = pre @ post"
    then have h1: "3 \<le> length q1" and h2: "3 \<le> length q2" and h3: "q1 \<noteq> q2"
      and h4: "deps w \<noteq> Some q1" and h5: "name e = ''AbortError''"
      and h6: "events_of (Suc (length (attempts w))) r = pre @ post"
      by simp_all
    note st = supersede_state [OF h1 h2 h3 h4]
    note sc = superseded_scenario [OF h1 h2 h3 h4 h5 h6]
    have "length (attempts w) < length (attempts (run [Render q1, Render q2] w))"
      using st(2) by simp
    from aborted_kept_run [OF this st(1),
        of "pre @ FetchSettled (length (attempts w)) (Rejected e) # post"]
    have ab: "aborted (attempts (run (Render q1 # Render q2 # pre
                      @ FetchSettled (length (attempts w)) (Rejected e) # post) w)
                  ! length (attempts w))"
      by simp
    from st(1,4) sc(1,2,3,4,6) ab
    show "aborted (attempts (run [Render q1, Render q2] w) ! length (attempts w))
     \<and> \<not> aborted (attempts (run [Render q1, Render q2] w) ! Suc (length (attempts w)))
     \<and> movies (run (Render q1 # Render q2 # pre
                      @ FetchSettled (length (attempts w)) (Rejected e) # post) w)
         = movies (run (Render q1 # Render q2 # events_of (Suc (length (attempts w))) r) w)
     \<and> error (run (Render q1 # Render q2 # pre
                      @ FetchSettled (length (attempts w)) (Rejected e) # post) w)
         = error (run (Render q1 # Render q2 # events_of (Suc (length (attempts w))) r) w)
     \<and> console (run (Render q1 # Render q2 # pre
                      @ FetchSettled (length (attempts w)) (Rejected e) # post) w)
         = console (run (Render q1 # Render q2 # events_of (Suc (length (attempts w))) r) w)
     \<and> isLoading (run (Render q1 # Render q2 # pre
                      @ FetchSettled (length (attempts w)) (Rejected e) # post) w) = False
     \<and> aborted (attempts (run (Render q1 # Render q2 # pre
                      @ FetchSettled (length (attempts w)) (Rejected e) # post) w)
                  ! length (attempts w))
     \<and> phase (attempts (run (Render q1 # Render q2 # events_of (Suc (length (attempts w))) r) w)
                  ! Suc (length (attempts w))) = Fulfilled"
      by (intro conjI)
  qed
  from a b c d s show ?thesis by (intro conjI)
qed

theorem cancelled_attempt_is_invisible_witness:
  "cleanup bat_pending = Some 0 \<and> 0 < length (attempts bat_pending)
   \<and> deps bat_pending \<noteq> Some ''sup'' \<and> deps bat_pending \<noteq> Some ''ba''
   \<and> \<not> aborted (attempts bat_pending ! 0)
   \<and> aborted (attempts (run_cleanup bat_pending) ! 0)
   \<and> aborted (attempts (step (Render ''ba'') bat_pending) ! 0)
   \<and> cleanup (step (Render ''sup'') bat_pending) = Some 1
   \<and> 3 \<le> length ''bat'' \<and> 3 \<le> length ''sup'' \<and> ''bat'' \<noteq> ''sup''
   \<and> deps init \<noteq> Some ''bat'' \<and> name abort_error = ''AbortError''
   \<and> events_of (Suc (length (attempts init))) (HttpReply \<lparr>status = 200\<rparr> (Parsed sup_body))
       = [FetchSettled 1 (Resolved \<lparr>status = 200\<rparr>)] @ [JsonSettled 1 (Parsed sup_body)]
   \<and> aborted (attempts (run [Render ''bat'', Render ''sup''] init) ! 0)
   \<and> \<not> aborted (attempts (run [Render ''bat'', Render ''sup''] init) ! 1)
   \<and> movies (run [Render ''bat'', Render ''sup'',
                FetchSettled 1 (Resolved \<lparr>status = 200\<rparr>),
                FetchSettled 0 (Rejected abort_error),
                JsonSettled 1 (Parsed sup_body)] init)
       = Val (JArr [JObj [(''Title'', JStr ''Superman''), (''Year'', JStr ''1978'')]])
   \<and> error (run [Render ''bat'', Render ''sup'',
                FetchSettled 1 (Resolved \<lparr>status = 200\<rparr>),
                FetchSettled 0 (Rejected abort_error),
                JsonSettled 1 (Parsed sup_body)] init) = ''''
   \<and> console (run [Render ''bat'', Render ''sup'',
                FetchSettled 1 (Resolved \<lparr>status = 200\<rparr>),
                FetchSettled 0 (Rejected abort_error),
                JsonSettled 1 (Parsed sup_body)] init) = []
   \<and> isLoading (run [Render ''bat'', Render ''sup'',
                FetchSettled 1 (Resolved \<lparr>status = 200\<rparr>),
                FetchSettled 0 (Rejected abort_error),
                JsonSettled 1 (Parsed sup_body)] init) = False"
proof -
  let ?evs = "[Render ''bat'', Render ''sup'',
               FetchSettled 1 (Resolved \<lparr>status = 200\<rparr>),
               FetchSettled 0 (Rejected abort_error),
               JsonSettled 1 (Parsed sup_body)]"
  have g: "\<forall>ev \<in> set ?evs. target ev = Some 0 \<longrightarrow> cancellation ev"
    by (simp add: abort_error_def)
  have p: "cleanup bat_pending = Some 0" "deps bat_pending \<noteq> Some ''sup''"
    "deps bat_pending \<noteq> Some ''ba''" "\<not> aborted (attempts bat_pending ! 0)"
    "length (attempts bat_pending) = 1"
    by (simp_all add: bat_pending_def init_def render_defs setters)
  have n: "length (attempts init) = 0" "deps init \<noteq> Some ''bat''"
    "name abort_error = ''AbortError''"
    by (simp_all add: init_def abort_error_def)
  have r: "visible (run [Render ''bat'', Render ''sup'',
                FetchSettled 1 (Resolved \<lparr>status = 200\<rparr>), JsonSettled 1 (Parsed sup_body)] init)
             = (Val (JArr [JObj [(''Title'', JStr ''Superman''), (''Year'', JStr ''1978'')]]),
                False, '''')"
    and c: "console (run [Render ''bat'', Render ''sup'',
                FetchSettled 1 (Resolved \<lparr>status = 200\<rparr>), JsonSettled 1 (Parsed sup_body)] init)
             = []"
    by (simp_all add: visible_def init_def render_defs settle_defs setters try_after_json_def
          sup_body_def ok_def)
  show ?thesis
    using g p n r c
      cancelled_attempt_is_invisible [of ?evs 0 init "''sup''" bat_pending 0
        "Rejected abort_error" "Parsed sup_body" 0 "''ba''" "''bat''" "''sup''" abort_error
        "HttpReply \<lparr>status = 200\<rparr> (Parsed sup_body)"
        "[FetchSettled 1 (Resolved \<lparr>status = 200\<rparr>)]" "[JsonSettled 1 (Parsed sup_body)]"]
    by (auto simp add: visible_def)
qed

text \<open>
  C1 as stated fails: the query changes from \<open>bat\<close> to \<open>sup\<close> while the first request
  is in flight, so the first controller is aborted; the answer for \<open>sup\<close> arrives and is
  published; then a transport that does not observe the signal delivers the answer for
  \<open>bat\<close>, and the results shown for the query \<open>sup\<close> become those of \<open>bat\<close>.
\<close>

theorem stale_response_counterexample:
  "movies (run [Render ''bat'', Render ''sup'',
                FetchSettled 1 (Resolved \<lparr>status = 200\<rparr>), JsonSettled 1 (Parsed sup_body)] init)
     = Val (JArr [JObj [(''Title'', JStr ''Superman''), (''Year'', JStr ''1978'')]])
   \<and> aborted (attempts (run [Render ''bat'', Render ''sup'',
                FetchSettled 1 (Resolved \<lparr>status = 200\<rparr>), JsonSettled 1 (Parsed sup_body)] init) ! 0)
   \<and> deps (run [Render ''bat'', Render ''sup'',
                FetchSettled 1 (Resolved \<lparr>status = 200\<rparr>), JsonSettled 1 (Parsed sup_body),
                FetchSettled 0 (Resolved \<lparr>status = 200\<rparr>), JsonSettled 0 (Parsed bat_body)] init)
       = Some ''sup''
   \<and> movies (run [Render ''bat'', Render ''sup'',
                FetchSettled 1 (Resolved \<lparr>status = 200\<rparr>), JsonSettled 1 (Parsed sup_body),
                FetchSettled 0 (Resolved \<lparr>status = 200\<rparr>), JsonSettled 0 (Parsed bat_body)] init)
       = Val (JArr [JObj [(''Title'', JStr ''Batman''), (''Year'', JStr ''1989'')]])"
  by (simp add: init_def render_defs settle_defs setters try_after_json_def
        sup_body_def bat_body_def ok_def)

text \<open>
  C6: an event that delivers a cancellation (the awaited promise rejects with an error named
  \<open>AbortError\<close>) changes neither the results, nor the error, nor the console. Every
  other throw of the try block, while the attempt waits for the fetch or for the body, is
  caught: its message becomes the error and is appended to the console, and the attempt's
  own promise is fulfilled. The errors the hook constructs itself (non-ok status, movie
  not found) are not named \<open>AbortError\<close>, so they take that path. In no state the hook can
  reach has an exception left a run of \<open>fetchMovies\<close>.
\<close>

theorem cancellation_is_filtered:
  "(cancellation ev \<longrightarrow>
      movies (step ev w) = movies w \<and> error (step ev w) = error w
      \<and> console (step ev w) = console w)
   \<and> (i < length (attempts w) \<and> phase (attempts w ! i) = AwaitFetch
        \<and> try_after_fetch fo = Inl e \<and> name e \<noteq> ''AbortError'' \<longrightarrow>
      error (step (FetchSettled i fo) w) = message e
      \<and> console (step (FetchSettled i fo) w) = console w @ [message e]
      \<and> phase (attempts (step (FetchSettled i fo) w) ! i) = Fulfilled)
   \<and> (j < length (attempts v) \<and> phase (attempts v ! j) = AwaitJson
        \<and> try_after_json jo v = Inl e' \<and> name e' \<noteq> ''AbortError'' \<longrightarrow>
      error (step (JsonSettled j jo) v) = message e'
      \<and> console (step (JsonSettled j jo) v) = console v @ [message e']
      \<and> phase (attempts (step (JsonSettled j jo) v) ! j) = Fulfilled)
   \<and> name (new_Error m) \<noteq> ''AbortError''
   \<and> nothing_escaped (run evs init)"
proof -
  have a: "cancellation ev \<longrightarrow>
      movies (step ev w) = movies w \<and> error (step ev w) = error w
      \<and> console (step ev w) = console w"
    by (simp add: cancellation_changes_nothing_shown)
  have b: "i < length (attempts w) \<and> phase (attempts w ! i) = AwaitFetch
        \<and> try_after_fetch fo = Inl e \<and> name e \<noteq> ''AbortError'' \<longrightarrow>
      error (step (FetchSettled i fo) w) = message e
      \<and> console (step (FetchSettled i fo) w) = console w @ [message e]
      \<and> phase (attempts (step (FetchSettled i fo) w) ! i) = Fulfilled"
    by (simp add: fetch_settled_throw setters)
  have c: "j < length (attempts v) \<and> phase (attempts v ! j) = AwaitJson
        \<and> try_after_json jo v = Inl e' \<and> name e' \<noteq> ''AbortError'' \<longrightarrow>
      error (step (JsonSettled j jo) v) = message e'
      \<and> console (step (JsonSettled j jo) v) = console v @ [message e']
      \<and> phase (attempts (step (JsonSettled j jo) v) ! j) = Fulfilled"
    by (simp add: json_settled_throw setters)
  have d: "name (new_Error m) \<noteq> ''AbortError''"
    by (simp add: new_Error_def)
  from a b c d nothing_escaped_run [OF nothing_escaped_init, of evs] show ?thesis
    by blast
qed

theorem cancellation_is_filtered_witness:
  "cancellation (FetchSettled 0 (Rejected abort_error))
   \<and> movies (step (FetchSettled 0 (Rejected abort_error)) bat_pending) = Val (JArr [])
   \<and> error (step (FetchSettled 0 (Rejected abort_error)) bat_pending) = ''''
   \<and> console (step (FetchSettled 0 (Rejected abort_error)) bat_pending) = []
   \<and> 0 < length (attempts bat_pending) \<and> phase (attempts bat_pending ! 0) = AwaitFetch
   \<and> try_after_fetch (Rejected network_error) = Inl network_error
   \<and> name network_error \<noteq> ''AbortError''
   \<and> error (step (FetchSettled 0 (Rejected network_error)) bat_pending) = ''Failed to fetch''
   \<and> console (step (FetchSettled 0 (Rejected network_error)) bat_pending) = [''Failed to fetch'']
   \<and> 0 < length (attempts bat_decoding) \<and> phase (attempts bat_decoding ! 0) = AwaitJson
   \<and> try_after_json (Failed syntax_error) bat_decoding = Inl syntax_error
   \<and> name syntax_error \<noteq> ''AbortError''
   \<and> error (step (JsonSettled 0 (Failed syntax_error)) bat_decoding)
       = ''Unexpected end of JSON input''
   \<and> console (step (JsonSettled 0 (Failed syntax_error)) bat_decoding)
       = [''Unexpected end of JSON input'']
   \<and> nothing_escaped (run [Render ''bat'', FetchSettled 0 (Rejected network_error)] init)"
proof -
  have h1: "cancellation (FetchSettled 0 (Rejected abort_error))"
    by (simp add: abort_error_def)
  have h2: "try_after_fetch (Rejected network_error) = Inl network_error"
    "name network_error \<noteq> ''AbortError''" "message network_error = ''Failed to fetch''"
    by (simp_all add: try_after_fetch_def network_error_def)
  have h3: "0 < length (attempts bat_decoding)" "phase (attempts bat_decoding ! 0) = AwaitJson"
    "console bat_decoding = []"
    by (simp_all add: bat_decoding_def init_def render_defs setters fetch_settled_def
          try_after_fetch_def ok_def)
  have h4: "try_after_json (Failed syntax_error) bat_decoding = Inl syntax_error"
    "name syntax_error \<noteq> ''AbortError''"
    "message syntax_error = ''Unexpected end of JSON input''"
    by (simp_all add: try_after_json_def syntax_error_def)
  have s: "movies bat_pending = Val (JArr [])" "error bat_pending = ''''"
    "console bat_pending = []"
    by (simp_all add: bat_pending_def init_def render_defs setters)
  show ?thesis
    using h1 h2 h3 h4 s bat_pending_attempt
      cancellation_is_filtered [of "FetchSettled 0 (Rejected abort_error)" bat_pending 0
        "Rejected network_error" network_error 0 bat_decoding "Failed syntax_error" syntax_error
        "''''" "[Render ''bat'', FetchSettled 0 (Rejected network_error)]"]
    by simp
qed

text \<open>
  C7: whenever a step takes an attempt from waiting to finished, \<open>isLoading\<close> is false
  after the step; whatever the network replies to a request (a response of any status with
  any body, any failure, a cancellation), the attempt is finished and \<open>isLoading\<close> is false
  once the reply has been delivered. A render that starts an attempt leaves the error empty
  and \<open>isLoading\<close> true, with the new attempt waiting for its fetch. In every state the hook
  can reach, \<open>isLoading\<close> is true only if some started run of \<open>fetchMovies\<close> has not
  finished yet (aborted or not).
\<close>

theorem loading_flag_discipline:
  "(i < length (attempts w) \<and> pending (phase (attempts w ! i))
      \<and> \<not> pending (phase (attempts (step ev w) ! i))
      \<longrightarrow> isLoading (step ev w) = False)
   \<and> (i < length (attempts w) \<and> phase (attempts w ! i) = AwaitFetch
      \<longrightarrow> phase (attempts (run (events_of i r) w) ! i) = Fulfilled
          \<and> isLoading (run (events_of i r) w) = False)
   \<and> (3 \<le> length q \<and> deps w \<noteq> Some q
      \<longrightarrow> error (step (Render q) w) = '''' \<and> isLoading (step (Render q) w)
          \<and> phase (last (attempts (step (Render q) w))) = AwaitFetch)
   \<and> loading_only_while_pending (run evs init)"
  using exit_clears_loading [of i w ev] reply_ends_attempt [of i w r] attempt_start [of q w]
    loading_run [OF loading_init, of evs]
  by blast

theorem loading_flag_discipline_witness:
  "0 < length (attempts bat_pending) \<and> pending (phase (attempts bat_pending ! 0))
   \<and> \<not> pending (phase (attempts (step (FetchSettled 0 (Rejected abort_error)) bat_pending) ! 0))
   \<and> isLoading bat_pending
   \<and> isLoading (step (FetchSettled 0 (Rejected abort_error)) bat_pending) = False
   \<and> phase (attempts bat_pending ! 0) = AwaitFetch
   \<and> phase (attempts (run (events_of 0 (HttpReply \<lparr>status = 200\<rparr> (Parsed bat_body)))
                         bat_pending) ! 0) = Fulfilled
   \<and> isLoading (run (events_of 0 (HttpReply \<lparr>status = 200\<rparr> (Parsed bat_body))) bat_pending)
       = False
   \<and> 3 \<le> length ''sup'' \<and> deps bat_pending \<noteq> Some ''sup''
   \<and> error (step (Render ''sup'') bat_pending) = ''''
   \<and> isLoading (step (Render ''sup'') bat_pending)
   \<and> loading_only_while_pending (run [Render ''bat'', Render ''ba''] init)
   \<and> isLoading (run [Render ''bat'', Render ''ba''] init)"
proof -
  have p: "pending (phase (attempts bat_pending ! 0))"
    using bat_pending_attempt by (simp add: pending_def)
  have n: "\<not> pending (phase (attempts (step (FetchSettled 0 (Rejected abort_error)) bat_pending) ! 0))"
    using bat_pending_attempt
    by (simp add: fetch_settled_throw try_after_fetch_def setters pending_def)
  have l: "isLoading bat_pending" "deps bat_pending \<noteq> Some ''sup''"
    by (simp_all add: bat_pending_def init_def render_defs setters)
  have g: "isLoading (run [Render ''bat'', Render ''ba''] init)"
    by (simp add: init_def render_defs setters)
  show ?thesis
    using p n l g bat_pending_attempt
      loading_flag_discipline [of 0 bat_pending "FetchSettled 0 (Rejected abort_error)"
        "HttpReply \<lparr>status = 200\<rparr> (Parsed bat_body)" "''sup''"
        "[Render ''bat'', Render ''ba'']"]
    by simp
qed

text \<open>
  C9: running the effect for a query and letting the network answer, and then doing the
  same again with the same answer, gives the same \<open>{movies, isLoading, error}\<close> as doing
  it once. And a render with the query the effect last ran for does not run the effect:
  the state stays as it is.
\<close>

theorem lookup_idempotent:
  "visible (lookup q r (lookup q r w)) = visible (lookup q r w)
   \<and> (deps w = Some q \<longrightarrow> step (Render q) w = w)"
proof -
  have "visible (lookup q r (lookup q r w)) = visible (lookup q r w)"
  proof (cases "length q < 3")
    case True
    show ?thesis
      using lookup_short [OF True, of r w] lookup_short [OF True, of r "lookup q r w"]
      by (simp add: visible_def)
  next
    case False
    then have l: "3 \<le> length q" by simp
    show ?thesis
    proof (rule lookup_cases [OF l, of r])
      fix m assume fails: "\<And>w. visible (lookup q r w) = (movies w, False, m)"
      show ?thesis
        using fails [of w] fails [of "lookup q r w"] by (simp add: visible_def)
    next
      fix s assume succeeds: "\<And>w. visible (lookup q r w) = (s, False, [])"
      show ?thesis
        using succeeds [of w] succeeds [of "lookup q r w"] by simp
    qed
  qed
  then show ?thesis by (simp add: render_def)
qed


theorem lookup_idempotent_witness:
  "deps bat_pending = Some ''bat''
   \<and> step (Render ''bat'') bat_pending = bat_pending
   \<and> visible (lookup ''bat'' (HttpReply \<lparr>status = 404\<rparr> (Parsed not_found_body))
        (lookup ''bat'' (HttpReply \<lparr>status = 404\<rparr> (Parsed not_found_body)) bat_pending))
       = visible (lookup ''bat'' (HttpReply \<lparr>status = 404\<rparr> (Parsed not_found_body)) bat_pending)"
proof -
  have d: "deps bat_pending = Some ''bat''"
    by (simp add: bat_pending_def init_def render_defs setters)
  show ?thesis
    using d lookup_idempotent [of "''bat''"
      "HttpReply \<lparr>status = 404\<rparr> (Parsed not_found_body)" bat_pending]
    by simp
qed

end
